theory Spec2Isabelle
  imports Main "HOL-Library.Word"
begin

section \<open>The printf\_df codec: data model\<close>

text \<open>
  The module \<^verbatim>\<open>printf_df_codec.py\<close> decodes a byte stream in which ASCII text is
  interleaved with records: the escape marker \<^verbatim>\<open>0xA5\<close>, a shortened printf
  specifier and the raw argument bytes. The embedding below follows the file function by
  function. Python \<^verbatim>\<open>bytes\<close> are lists of 8-bit words; a Python \<^verbatim>\<open>str\<close> is the
  list of its Unicode code points (the codec's \<^verbatim>\<open>replace\<close> policy produces
  U+FFFD, which no 8-bit character type holds); Python integers are \<^typ>\<open>int\<close>;
  every exception the code can raise is a value of \<open>pyexc\<close>, returned as \<open>Inl\<close>.
\<close>

type_synonym byte = "8 word"
type_synonym pystr = "nat list"

datatype pyexc =
    TypeError | ValueError | IndexError | KeyError | StructError | OverflowError
  | UnicodeDecodeError | UnicodeEncodeError | UnboundLocalError | NotModelled

text \<open>\<open>NotModelled\<close> is no exception of Python: it marks an input on which the reference
  formatter below has no answer. No other definition produces it.\<close>

text \<open>The \<^verbatim>\<open>errors\<close> argument of the codec API: \<^verbatim>\<open>'strict'\<close>, \<^verbatim>\<open>'replace'\<close>, \<^verbatim>\<open>'ignore'\<close>.\<close>

datatype err_policy = Strict | Replace | Ignore

text \<open>The values \<^verbatim>\<open>struct.unpack\<close> and the decoders hand to the formatter. A float
  is kept as the 32-bit pattern it was unpacked from.\<close>

datatype pyval = PyInt int | PyFloat nat | PyStr pystr

datatype fmt_result = Rendered pystr | Raises pyexc

text \<open>Python's \<^verbatim>\<open>print_fmt % val\<close> is the interpreter's own operator, not code of this
  module: the decoders take it as the parameter \<open>F\<close>.\<close>

type_synonym formatter = "pystr \<Rightarrow> pyval \<Rightarrow> fmt_result"

subsection \<open>Characters and strings\<close>

definition lit :: "string \<Rightarrow> pystr" where
  "lit s = map of_char s"

definition ch :: "char \<Rightarrow> nat" where
  "ch c = of_char c"

definition chr :: "byte \<Rightarrow> nat" where
  "chr b = unat b"

definition bytes_of :: "string \<Rightarrow> byte list" where
  \<comment> \<open>a bytes literal \<^verbatim>\<open>b'...'\<close> of ASCII characters\<close>
  "bytes_of s = map of_char s"

text \<open>\<^verbatim>\<open>str(n)\<close> for a non-negative integer: its decimal digits.\<close>

fun decimal :: "nat \<Rightarrow> pystr" where
  "decimal n = (if n < 10 then [48 + n] else decimal (n div 10) @ [48 + n mod 10])"

declare decimal.simps [simp del]

definition str_int :: "int \<Rightarrow> pystr" where
  "str_int n = (if n < 0 then ch CHR ''-'' # decimal (nat (- n)) else decimal (nat n))"

subsection \<open>Indexing and slicing as Python does them\<close>

definition py_norm :: "nat \<Rightarrow> int \<Rightarrow> nat" where
  "py_norm n k = (if k < 0 then nat (max 0 (int n + k)) else min (nat k) n)"

definition py_slice :: "'a list \<Rightarrow> int \<Rightarrow> int \<Rightarrow> 'a list" where
  \<comment> \<open>\<^verbatim>\<open>xs[a:b]\<close>\<close>
  "py_slice xs a b =
     (let s = py_norm (length xs) a; e = py_norm (length xs) b in take (e - s) (drop s xs))"

definition py_slice_from :: "'a list \<Rightarrow> int \<Rightarrow> 'a list" where
  \<comment> \<open>\<^verbatim>\<open>xs[a:]\<close>\<close>
  "py_slice_from xs a = drop (py_norm (length xs) a) xs"

definition py_index :: "'a list \<Rightarrow> int \<Rightarrow> pyexc + 'a" where
  \<comment> \<open>\<^verbatim>\<open>xs[i]\<close>: a negative index counts from the end\<close>
  "py_index xs i =
     (if 0 \<le> i \<and> i < int (length xs) then Inr (xs ! nat i)
      else if i < 0 \<and> - int (length xs) \<le> i then Inr (xs ! nat (int (length xs) + i))
      else Inl IndexError)"

fun find_byte :: "byte list \<Rightarrow> byte \<Rightarrow> int" where
  \<comment> \<open>\<^verbatim>\<open>xs.find(bytes([b]))\<close>: the first position of \<open>b\<close>, or -1\<close>
  "find_byte [] b = -1"
| "find_byte (x # xs) b =
     (if x = b then 0 else (let r = find_byte xs b in if r < 0 then -1 else r + 1))"

fun split_marker :: "byte list \<Rightarrow> byte list \<times> byte list option" where
  \<comment> \<open>\<^verbatim>\<open>data.split(b'\xA5', 1)\<close>: a list of one or of two byte strings\<close>
  "split_marker [] = ([], None)"
| "split_marker (x # xs) =
     (if x = 0xA5 then ([], Some xs)
      else (case split_marker xs of (pre, post) \<Rightarrow> (x # pre, post)))"

subsection \<open>The ASCII codec and the struct module\<close>

definition ascii_decode :: "err_policy \<Rightarrow> byte list \<Rightarrow> pyexc + pystr" where
  \<comment> \<open>\<^verbatim>\<open>bs.decode('ascii', errors)\<close>\<close>
  "ascii_decode errs bs =
     (case errs of
        Strict \<Rightarrow> (if \<forall>b \<in> set bs. b < 0x80 then Inr (map chr bs) else Inl UnicodeDecodeError)
      | Replace \<Rightarrow> Inr (map (\<lambda>b. if b < 0x80 then chr b else 0xFFFD) bs)
      | Ignore \<Rightarrow> Inr (map chr (filter (\<lambda>b. b < 0x80) bs)))"

definition ascii_encode :: "pystr \<Rightarrow> pyexc + byte list" where
  \<comment> \<open>\<^verbatim>\<open>s.encode('ascii')\<close>, strict\<close>
  "ascii_encode s =
     (if \<forall>c \<in> set s. c < 128 then Inr (map of_nat s) else Inl UnicodeEncodeError)"

fun le_uint :: "byte list \<Rightarrow> int" where
  \<comment> \<open>the bytes read as an unsigned little-endian integer\<close>
  "le_uint [] = 0"
| "le_uint (b # bs) = uint b + 256 * le_uint bs"

definition le_sint :: "byte list \<Rightarrow> int" where
  \<comment> \<open>the bytes read as a two's complement little-endian integer\<close>
  "le_sint bs =
     (let v = le_uint bs; w = 8 * length bs in if v < 2 ^ (w - 1) then v else v - 2 ^ w)"

definition struct_calcsize :: "string \<Rightarrow> pyexc + int" where
  "struct_calcsize f =
     (if f = ''<i'' \<or> f = ''<I'' \<or> f = ''<f'' then Inr 4
      else if f = ''<h'' \<or> f = ''<H'' then Inr 2
      else if f = ''<b'' \<or> f = ''<B'' then Inr 1
      else if f = '''' then Inr 0
      else Inl StructError)"

definition struct_unpack0 :: "string \<Rightarrow> byte list \<Rightarrow> pyexc + pyval" where
  \<comment> \<open>\<^verbatim>\<open>struct.unpack(f, bs)[0]\<close>: struct.error unless \<open>bs\<close> has exactly the
      size of \<open>f\<close>; the empty format unpacks to the empty tuple, which has no element 0.
      The seven formats are the ones the module builds.\<close>
  "struct_unpack0 f bs =
     (case struct_calcsize f of
        Inl e \<Rightarrow> Inl e
      | Inr n \<Rightarrow>
          if int (length bs) \<noteq> n then Inl StructError
          else if f = ''<i'' \<or> f = ''<h'' \<or> f = ''<b'' then Inr (PyInt (le_sint bs))
          else if f = ''<I'' \<or> f = ''<H'' \<or> f = ''<B'' then Inr (PyInt (le_uint bs))
          else if f = ''<f'' then Inr (PyFloat (nat (le_uint bs)))
          else Inl IndexError)"

section \<open>Helper tables and functions of the module\<close>

definition VALUE_FORMAT :: "(pystr \<times> string) list" where
  "VALUE_FORMAT =
     [(lit ''d'', ''<i''), (lit ''u'', ''<I''), (lit ''o'', ''<I''), (lit ''x'', ''<I''),
      (lit ''X'', ''<I''),
      (lit ''hd'', ''<h''), (lit ''hu'', ''<H''), (lit ''ho'', ''<H''), (lit ''hx'', ''<H''),
      (lit ''hX'', ''<H''),
      (lit ''hhd'', ''<b''), (lit ''hhu'', ''<B''), (lit ''hho'', ''<B''),
      (lit ''hhx'', ''<B''), (lit ''hhX'', ''<B'')]"

definition SPECIAL_CHARS :: "(nat \<times> nat) list" where
  "SPECIAL_CHARS =
     [(0xD8, ch CHR ''X''), (0xE4, ch CHR ''d''), (0xE9, ch CHR ''i''),
      (0xEF, ch CHR ''o''), (0xF5, ch CHR ''u''), (0xF8, ch CHR ''x'')]"

definition NON_VALUE_CHARS :: "nat list" where
  "NON_VALUE_CHARS = [ch CHR ''c'', ch CHR ''s'', ch CHR ''%'', 0]"

definition FLOAT_VAL_CHARS :: "nat list" where
  "FLOAT_VAL_CHARS = lit ''eEfFgG''"

definition SPECIFIER_CHARS :: "nat list" where
  "SPECIFIER_CHARS =
     map snd SPECIAL_CHARS @ map fst SPECIAL_CHARS @ NON_VALUE_CHARS @ FLOAT_VAL_CHARS"

definition sprintf :: "formatter \<Rightarrow> pystr \<Rightarrow> pyval \<Rightarrow> pyexc + pystr" where
  \<comment> \<open>\<^verbatim>\<open>try: return print_fmt % val  except TypeError: return print_fmt\<close>\<close>
  "sprintf F pf v =
     (case F pf v of
        Rendered s \<Rightarrow> Inr s
      | Raises e \<Rightarrow> (if e = TypeError then Inr pf else Inl e))"

definition py_last :: "pystr \<Rightarrow> pyexc + nat" where
  \<comment> \<open>\<^verbatim>\<open>s[-1]\<close>\<close>
  "py_last s = py_index s (-1)"

definition len_char_set :: "nat list" where
  "len_char_set = lit ''hlLjzt''"

definition parse_length_chars :: "pystr \<Rightarrow> pystr \<Rightarrow> pyexc + (pystr \<times> pystr)" where
  \<comment> \<open>\<open>val_char = []\<close> stands for the falsy values \<^verbatim>\<open>None\<close> and \<^verbatim>\<open>''\<close>\<close>
  "parse_length_chars pf val_char =
     (let finish = (\<lambda>p lc. if val_char \<noteq> [] then Inr (p @ val_char, lc @ val_char)
                             else Inr (p, lc))
      in case py_last pf of
           Inl e \<Rightarrow> Inl e
         | Inr c \<Rightarrow>
             if c \<in> set len_char_set then
               (let p1 = butlast pf in
                if c = ch CHR ''h'' then
                  (case py_last p1 of
                     Inl e \<Rightarrow> Inl e
                   | Inr c2 \<Rightarrow>
                       if c2 = ch CHR ''h'' then finish (butlast p1) [c, c2]
                       else finish p1 [c])
                else if c = ch CHR ''l'' then
                  (case py_last p1 of
                     Inl e \<Rightarrow> Inl e
                   | Inr c2 \<Rightarrow>
                       if c2 = ch CHR ''l'' then finish (butlast p1) [] else finish p1 [])
                else finish p1 [])
             else finish pf [])"

section \<open>The one-shot decoder \<^verbatim>\<open>printf_decode\<close>\<close>

text \<open>
  The inner \<^verbatim>\<open>while (i < len(print_data))\<close> loop. The first argument is what is left
  of \<^verbatim>\<open>print_data\<close> from position \<open>i\<close> on; \<open>c\<close> is the Python variable
  \<^verbatim>\<open>c\<close>, \<open>None\<close> while it is unbound. A wildcard reads \<^verbatim>\<open>print_data[i + 1]\<close>,
  which raises IndexError when \<^verbatim>\<open>*\<close> is the last byte.
\<close>

fun scan :: "byte list \<Rightarrow> int \<Rightarrow> pystr \<Rightarrow> nat option \<Rightarrow> pyexc + (int \<times> pystr \<times> nat option)" where
  "scan [] i pf c = Inr (i, pf, c)"
| "scan (b # bs) i pf c =
     (if chr b = ch CHR ''*'' then
        (case bs of
           [] \<Rightarrow> Inl IndexError
         | w # bs' \<Rightarrow> scan bs' (i + 2) (pf @ decimal (unat w)) (Some (chr b)))
      else
        (let pf' = (if chr b \<noteq> 0 then pf @ [chr b] else pf) in
         if chr b \<in> set SPECIFIER_CHARS then Inr (i + 1, pf', Some (chr b))
         else scan bs (i + 1) pf' (Some (chr b))))"

text \<open>
  The dispatch on \<^verbatim>\<open>c\<close> after the scan (lines 132 to 163): the text appended to
  \<^verbatim>\<open>r\<close> and the new value of \<^verbatim>\<open>i\<close>.
\<close>

definition render_record ::
  "formatter \<Rightarrow> err_policy \<Rightarrow> byte list \<Rightarrow> int \<Rightarrow> pystr \<Rightarrow> nat option \<Rightarrow> pyexc + (pystr \<times> int)"
where
  "render_record F errs pd i pf copt =
     (case copt of
        None \<Rightarrow> Inl UnboundLocalError
      | Some c \<Rightarrow>
          if map_of VALUE_FORMAT [c] \<noteq> None then
            (case parse_length_chars (butlast pf) [c] of
               Inl e \<Rightarrow> Inl e
             | Inr (pf', vf) \<Rightarrow>
                 (case map_of VALUE_FORMAT vf of
                    None \<Rightarrow> Inl KeyError
                  | Some sf \<Rightarrow>
                      (case struct_calcsize sf of
                         Inl e \<Rightarrow> Inl e
                       | Inr n \<Rightarrow>
                           (case struct_unpack0 sf (py_slice pd i (i + n)) of
                              Inl e \<Rightarrow> Inl e
                            | Inr v \<Rightarrow>
                                (case sprintf F pf' v of
                                   Inl e \<Rightarrow> Inl e
                                 | Inr t \<Rightarrow> Inr (t, i + n))))))
          else if map_of SPECIAL_CHARS c \<noteq> None then
            (case parse_length_chars (butlast pf) [the (map_of SPECIAL_CHARS c)] of
               Inl e \<Rightarrow> Inl e
             | Inr (pf', vf) \<Rightarrow>
                 (case py_index pd i of
                    Inl e \<Rightarrow> Inl e
                  | Inr b \<Rightarrow>
                      (case sprintf F pf' (PyInt (uint b)) of
                         Inl e \<Rightarrow> Inl e
                       | Inr t \<Rightarrow> Inr (t, i + 1))))
          else if c \<in> set FLOAT_VAL_CHARS then
            (case struct_unpack0 ''<f'' (py_slice pd i (i + 4)) of
               Inl e \<Rightarrow> Inl e
             | Inr v \<Rightarrow>
                 (case sprintf F pf v of
                    Inl e \<Rightarrow> Inl e
                  | Inr t \<Rightarrow> Inr (t, i + 4)))
          else if c = ch CHR ''%'' then Inr (lit ''%'', i)
          else if c = ch CHR ''c'' then
            (case py_index pd i of
               Inl e \<Rightarrow> Inl e
             | Inr b \<Rightarrow>
                 (case sprintf F pf (PyInt (uint b)) of
                    Inl e \<Rightarrow> Inl e
                  | Inr t \<Rightarrow> Inr (t, i + 1)))
          else if c = ch CHR ''s'' then
            (let end = find_byte (py_slice_from pd i) 0 in
             case ascii_decode errs (py_slice pd i (i + end)) of
               Inl e \<Rightarrow> Inl e
             | Inr s \<Rightarrow>
                 (case sprintf F pf (PyStr s) of
                    Inl e \<Rightarrow> Inl e
                  | Inr t \<Rightarrow> Inr (t, i + end + 1)))
          else
            (case py_last pf of
               Inl e \<Rightarrow> Inl e
             | Inr l \<Rightarrow> Inr (if l = 0 then butlast pf else pf, i)))"

text \<open>One pass of the outer loop up to line 163: scan, then dispatch.\<close>

definition decode_record ::
  "formatter \<Rightarrow> err_policy \<Rightarrow> nat option \<Rightarrow> byte list \<Rightarrow> pyexc + (pystr \<times> int \<times> nat option)"
where
  "decode_record F errs c pd =
     (case scan pd 0 (lit ''%'') c of
        Inl e \<Rightarrow> Inl e
      | Inr (i, pf, c') \<Rightarrow>
          (case render_record F errs pd i pf c' of
             Inl e \<Rightarrow> Inl e
           | Inr (t, i') \<Rightarrow> Inr (t, i', c')))"

text \<open>
  The outer \<^verbatim>\<open>while (len(data_split) > 1)\<close> loop. \<open>ds\<close> is \<^verbatim>\<open>data_split\<close>, a
  list of one or two byte strings; \<open>c\<close> survives from one pass to the next, as the
  Python variable does.
\<close>

function decode_loop ::
  "formatter \<Rightarrow> err_policy \<Rightarrow> nat option \<Rightarrow> pystr \<Rightarrow> byte list \<times> byte list option \<Rightarrow> pyexc + pystr"
where
  "decode_loop F errs c r ds =
     (case snd ds of
        None \<Rightarrow> Inr r
      | Some pd \<Rightarrow>
          (case decode_record F errs c pd of
             Inl e \<Rightarrow> Inl e
           | Inr (t, i, c') \<Rightarrow>
               (case ascii_decode errs (fst (split_marker (py_slice_from pd i))) of
                  Inl e \<Rightarrow> Inl e
                | Inr l \<Rightarrow> decode_loop F errs c' (r @ t @ l) (split_marker (py_slice_from pd i)))))"
  by pat_completeness auto
termination
proof (relation "measure (\<lambda>(F, errs, c, r, ds). case snd ds of None \<Rightarrow> 0 | Some pd \<Rightarrow> Suc (length pd))", goal_cases)
  case 1
  show ?case by simp
next
  case (2 F errs c r ds pd x t y i c' l)
  have "(case snd (split_marker xs) of None \<Rightarrow> 0 | Some p \<Rightarrow> Suc (length p)) \<le> length xs"
    for xs by (induction xs) (auto split: option.splits prod.splits)
  then have "(case snd (split_marker (py_slice_from pd i)) of None \<Rightarrow> 0 | Some p \<Rightarrow> Suc (length p))
          \<le> length (py_slice_from pd i)" .
  also have "\<dots> \<le> length pd"
    by (simp add: py_slice_from_def)
  finally show ?case
    using 2 by simp
qed

declare decode_loop.simps [simp del]

definition printf_decode :: "formatter \<Rightarrow> byte list \<Rightarrow> err_policy \<Rightarrow> pyexc + (pystr \<times> int)" where
  "printf_decode F data errs =
     (case ascii_decode errs (fst (split_marker data)) of
        Inl e \<Rightarrow> Inl e
      | Inr r0 \<Rightarrow>
          (case decode_loop F errs None r0 (split_marker data) of
             Inl e \<Rightarrow> Inl e
           | Inr r \<Rightarrow> Inr (r, int (length r))))"

section \<open>The streaming decoder \<^verbatim>\<open>Printf_IncrementalDecoder\<close>\<close>

datatype phase = FIND_FMT_START | FIND_FMT_END | CAP_VALUE | CAP_TEXT | CAP_WILD

fun phase_tag :: "phase \<Rightarrow> int" where
  "phase_tag FIND_FMT_START = 0"
| "phase_tag FIND_FMT_END = 1"
| "phase_tag CAP_VALUE = 2"
| "phase_tag CAP_TEXT = 3"
| "phase_tag CAP_WILD = 4"

text \<open>
  The instance attributes. \<open>len\<close> is the attribute \<^verbatim>\<open>self.len\<close> that the \<^verbatim>\<open>c\<close>
  branch of \<^verbatim>\<open>decode\<close> creates (line 248); \<open>None\<close> until then.
\<close>

record decoder =
  errors :: err_policy
  print_fmt :: pystr
  data_buffer :: "byte list"
  val_len :: int
  val_fmt :: string
  state :: phase
  len :: "int option"

definition init :: "err_policy \<Rightarrow> decoder" where
  "init errs =
     \<lparr>errors = errs, print_fmt = [], data_buffer = [], val_len = 0, val_fmt = [],
      state = FIND_FMT_START, len = None\<rparr>"

definition reset :: "decoder \<Rightarrow> decoder" where
  "reset d = d\<lparr>print_fmt := [], data_buffer := [], val_len := 0, val_fmt := [],
               state := FIND_FMT_START\<rparr>"

text \<open>
  The body of \<^verbatim>\<open>for val in input\<close>: the decoder after the byte and the text appended
  to \<^verbatim>\<open>r\<close>. In the \<^verbatim>\<open>%\<close> and fallback branches the statement
  \<^verbatim>\<open>self.FIND_FMT_START\<close> (lines 254 and 257) is an expression without effect, so
  \<open>state\<close> is left as it is; the \<^verbatim>\<open>c\<close> branch sets \<^verbatim>\<open>self.len\<close> and leaves
  \<^verbatim>\<open>self.val_len\<close> alone. Where the Python code raises, the model returns the
  exception alone: the attributes the call had already assigned are not kept.
\<close>

definition decode_byte :: "formatter \<Rightarrow> decoder \<Rightarrow> byte \<Rightarrow> pyexc + (decoder \<times> pystr)" where
  "decode_byte F d val =
     (let c = chr val in
      case state d of
        FIND_FMT_START \<Rightarrow>
          if c = 0xA5 then Inr ((reset d)\<lparr>print_fmt := lit ''%'', state := FIND_FMT_END\<rparr>, [])
          else if c \<noteq> 0 then Inr (d, [c])
          else Inr (d, [])
      | FIND_FMT_END \<Rightarrow>
          (let d1 = d\<lparr>print_fmt := print_fmt d @ [c]\<rparr> in
           if map_of VALUE_FORMAT [c] \<noteq> None then
             (case parse_length_chars (butlast (print_fmt d1)) [c] of
                Inl e \<Rightarrow> Inl e
              | Inr (pf', vf) \<Rightarrow>
                  (case map_of VALUE_FORMAT vf of
                     None \<Rightarrow> Inl KeyError
                   | Some sf \<Rightarrow>
                       (case struct_calcsize sf of
                          Inl e \<Rightarrow> Inl e
                        | Inr n \<Rightarrow>
                            Inr (d1\<lparr>print_fmt := pf', val_fmt := sf, val_len := n,
                                    state := CAP_VALUE\<rparr>, []))))
           else if map_of SPECIAL_CHARS c \<noteq> None then
             (case parse_length_chars (butlast (print_fmt d1)) [the (map_of SPECIAL_CHARS c)] of
                Inl e \<Rightarrow> Inl e
              | Inr (pf', vf) \<Rightarrow>
                  Inr (d1\<lparr>print_fmt := pf', val_fmt := ''<B'', val_len := 1,
                          state := CAP_VALUE\<rparr>, []))
           else if c \<in> set FLOAT_VAL_CHARS then
             Inr (d1\<lparr>val_fmt := ''<f'', val_len := 4, state := CAP_VALUE\<rparr>, [])
           else if c \<in> set NON_VALUE_CHARS then
             (if c = ch CHR ''c'' then
                Inr (d1\<lparr>val_fmt := ''<B'', len := Some 1, state := CAP_VALUE\<rparr>, [])
              else if c = ch CHR ''s'' then Inr (d1\<lparr>state := CAP_TEXT\<rparr>, [])
              else if c = ch CHR ''%'' then Inr (d1, lit ''%'')
              else Inr (d1, print_fmt d1))
           else if c = ch CHR ''*'' then
             Inr (d1\<lparr>print_fmt := butlast (print_fmt d1), state := CAP_WILD\<rparr>, [])
           else Inr (d1, []))
      | CAP_VALUE \<Rightarrow>
          (let d1 = d\<lparr>data_buffer := data_buffer d @ [val]\<rparr> in
           if int (length (data_buffer d1)) = val_len d1 then
             (case struct_unpack0 (val_fmt d1) (data_buffer d1) of
                Inl e \<Rightarrow> Inl e
              | Inr v \<Rightarrow>
                  (case sprintf F (print_fmt d1) v of
                     Inl e \<Rightarrow> Inl e
                   | Inr t \<Rightarrow> Inr (d1\<lparr>state := FIND_FMT_START\<rparr>, t)))
           else Inr (d1, []))
      | CAP_TEXT \<Rightarrow>
          if val = 0 then
            (case ascii_decode (errors d) (data_buffer d) of
               Inl e \<Rightarrow> Inl e
             | Inr s \<Rightarrow>
                 (case sprintf F (print_fmt d) (PyStr s) of
                    Inl e \<Rightarrow> Inl e
                  | Inr t \<Rightarrow> Inr (d\<lparr>state := FIND_FMT_START\<rparr>, t)))
          else Inr (d\<lparr>data_buffer := data_buffer d @ [val]\<rparr>, [])
      | CAP_WILD \<Rightarrow>
          Inr (d\<lparr>print_fmt := print_fmt d @ decimal (unat val), state := FIND_FMT_END\<rparr>, []))"

text \<open>The \<^verbatim>\<open>for\<close> loop of \<^verbatim>\<open>decode\<close>, with \<^verbatim>\<open>r\<close> as accumulator.\<close>

fun decode_bytes :: "formatter \<Rightarrow> decoder \<Rightarrow> byte list \<Rightarrow> pystr \<Rightarrow> pyexc + (decoder \<times> pystr)" where
  "decode_bytes F d [] r = Inr (d, r)"
| "decode_bytes F d (v # vs) r =
     (case decode_byte F d v of
        Inl e \<Rightarrow> Inl e
      | Inr (d', t) \<Rightarrow> decode_bytes F d' vs (r @ t))"

definition decode :: "formatter \<Rightarrow> decoder \<Rightarrow> byte list \<Rightarrow> bool \<Rightarrow> pyexc + (decoder \<times> pystr)" where
  "decode F d input final =
     (case decode_bytes F d input [] of
        Inl e \<Rightarrow> Inl e
      | Inr (d', r) \<Rightarrow>
          if final \<and> state d' \<noteq> FIND_FMT_START then
            (case ascii_decode (errors d') (data_buffer d') of
               Inl e \<Rightarrow> Inl e
             | Inr t \<Rightarrow> Inr (reset d', r @ print_fmt d' @ t))
          else Inr (d', r))"

definition getstate :: "decoder \<Rightarrow> pyexc + (byte list \<times> int)" where
  "getstate d =
     (case ascii_encode (print_fmt d) of
        Inl e \<Rightarrow> Inl e
      | Inr bs \<Rightarrow> Inr (bs @ data_buffer d, phase_tag (state d)))"

definition setstate :: "formatter \<Rightarrow> byte list \<times> int \<Rightarrow> decoder \<Rightarrow> pyexc + decoder" where
  "setstate F st d =
     (case decode F (reset d) (fst st) False of
        Inl e \<Rightarrow> Inl e
      | Inr (d', r) \<Rightarrow> Inr d')"

section \<open>A reference formatter for concrete inputs\<close>

text \<open>
  The theorems about the decoders hold for every formatter \<open>F\<close>. Theorems at a concrete
  input need a concrete one: \<open>percent\<close> follows CPython's \<^verbatim>\<open>str % value\<close> for one
  argument that is an integer, a float or a string, on templates whose conversions carry no
  width and no precision: literal text, \<^verbatim>\<open>%%\<close>, the flags \<^verbatim>\<open>-\<close> and \<^verbatim>\<open>0\<close> (which
  change nothing when no width follows), an optional \<^verbatim>\<open>h\<close>, \<^verbatim>\<open>l\<close> or \<^verbatim>\<open>L\<close>, and
  the conversion character. A template that ends inside a conversion and an unknown
  conversion character raise ValueError; a mapping key, a value of the wrong type, a missing
  or an unused argument raise TypeError. Outside this fragment (another flag, a width, a
  dot or a star after \<^verbatim>\<open>%\<close>; a float to render) \<open>py_percent\<close> is \<open>None\<close>, which
  \<open>percent\<close> turns into the marker \<open>NotModelled\<close>.
\<close>

fun octal :: "nat \<Rightarrow> pystr" where
  "octal n = (if n < 8 then [48 + n] else octal (n div 8) @ [48 + n mod 8])"

declare octal.simps [simp del]

fun hexadecimal :: "nat \<Rightarrow> nat \<Rightarrow> pystr" where
  \<comment> \<open>\<open>a\<close> is the code of the digit ten: 97 for lower case, 65 for upper case\<close>
  "hexadecimal a n =
     (let dg = (\<lambda>k. if k < 10 then 48 + k else a + (k - 10)) in
      if n < 16 then [dg n] else hexadecimal a (n div 16) @ [dg (n mod 16)])"

declare hexadecimal.simps [simp del]

definition signed_digits :: "(nat \<Rightarrow> pystr) \<Rightarrow> int \<Rightarrow> pystr" where
  "signed_digits dg n = (if n < 0 then ch CHR ''-'' # dg (nat (- n)) else dg (nat n))"

definition py_convert :: "nat \<Rightarrow> pyval \<Rightarrow> fmt_result option" where
  "py_convert k v =
     (if k \<in> set (lit ''diu'') then
        (case v of PyInt n \<Rightarrow> Some (Rendered (str_int n))
         | PyFloat x \<Rightarrow> None
         | PyStr s \<Rightarrow> Some (Raises TypeError))
      else if k \<in> set (lit ''oxX'') then
        (case v of
           PyInt n \<Rightarrow>
             Some (Rendered (signed_digits
               (if k = ch CHR ''o'' then octal
                else if k = ch CHR ''x'' then hexadecimal 97 else hexadecimal 65) n))
         | PyFloat x \<Rightarrow> Some (Raises TypeError)
         | PyStr s \<Rightarrow> Some (Raises TypeError))
      else if k \<in> set (lit ''eEfFgG'') then
        (case v of PyStr s \<Rightarrow> Some (Raises TypeError) | PyInt n \<Rightarrow> None | PyFloat x \<Rightarrow> None)
      else if k = ch CHR ''c'' then
        (case v of
           PyInt n \<Rightarrow>
             Some (if 0 \<le> n \<and> n < 0x110000 then Rendered [nat n] else Raises OverflowError)
         | PyFloat x \<Rightarrow> Some (Raises TypeError)
         | PyStr s \<Rightarrow> Some (if length s = 1 then Rendered s else Raises TypeError))
      else if k = ch CHR ''s'' then
        (case v of PyStr s \<Rightarrow> Some (Rendered s)
         | PyInt n \<Rightarrow> Some (Rendered (str_int n))
         | PyFloat x \<Rightarrow> None)
      else if k \<in> set (lit ''ra'') then
        (case v of PyInt n \<Rightarrow> Some (Rendered (str_int n)) | PyFloat x \<Rightarrow> None | PyStr s \<Rightarrow> None)
      else Some (Raises ValueError))"

definition py_emit :: "nat \<Rightarrow> pyval list \<Rightarrow> fmt_result option + (pystr \<times> pyval list)" where
  \<comment> \<open>the conversion \<open>k\<close>: \<^verbatim>\<open>%\<close> takes no argument, any other takes the next one\<close>
  "py_emit k args =
     (if k = ch CHR ''%'' then Inr ([k], args)
      else
        (case args of
           [] \<Rightarrow> Inl (Some (Raises TypeError))
         | v # vs \<Rightarrow>
             (case py_convert k v of
                None \<Rightarrow> Inl None
              | Some (Raises e) \<Rightarrow> Inl (Some (Raises e))
              | Some (Rendered t) \<Rightarrow> Inr (t, vs))))"

fun py_percent :: "pystr \<Rightarrow> pyval list \<Rightarrow> pystr \<Rightarrow> fmt_result option"
  and py_spec :: "pystr \<Rightarrow> pyval list \<Rightarrow> pystr \<Rightarrow> fmt_result option"
where
  "py_percent [] args acc = Some (if args = [] then Rendered acc else Raises TypeError)"
| "py_percent (c # cs) args acc =
     (if c \<noteq> ch CHR ''%'' then py_percent cs args (acc @ [c])
      else
        (case cs of
           [] \<Rightarrow> Some (Raises ValueError)
         | k # ks \<Rightarrow> if k = ch CHR ''('' then Some (Raises TypeError) else py_spec cs args acc))"
| "py_spec [] args acc = Some (Raises ValueError)"
| "py_spec (k # ks) args acc =
     (if k \<in> set (lit ''-0'') then py_spec ks args acc
      else if k \<in> set (lit ''+ #123456789.*'') then None
      else if k \<in> set (lit ''hlL'') then
        (case ks of
           [] \<Rightarrow> Some (Raises ValueError)
         | k2 # ks2 \<Rightarrow>
             (case py_emit k2 args of
                Inl r \<Rightarrow> r
              | Inr (t, args') \<Rightarrow> py_percent ks2 args' (acc @ t)))
      else
        (case py_emit k args of
           Inl r \<Rightarrow> r
         | Inr (t, args') \<Rightarrow> py_percent ks args' (acc @ t)))"

definition percent :: formatter where
  "percent t v = (case py_percent t [v] [] of Some r \<Rightarrow> r | None \<Rightarrow> Raises NotModelled)"

section \<open>Notions used to state the properties\<close>


text \<open>
  A byte of a specifier that neither ends the scan nor is the wildcard: a flag, a digit, a
  dot, a length modifier.
\<close>

definition plain :: "byte \<Rightarrow> bool" where
  "plain b \<longleftrightarrow> chr b \<notin> set SPECIFIER_CHARS \<and> chr b \<noteq> ch CHR ''*''"

text \<open>The C99 length modifiers of the spec (section 4.2), and no modifier.\<close>

definition length_modifiers :: "string list" where
  "length_modifiers = ['''', ''h'', ''hh'', ''l'', ''ll'', ''L'', ''j'', ''z'', ''t'']"

text \<open>
  What a length modifier selects for a numeric conversion letter (spec, sections 4.2 and
  4.3): the width tag that is put in front of the letter to look up \<^verbatim>\<open>VALUE_FORMAT\<close>,
  and the number of raw argument bytes.
\<close>

definition width_tag :: "string \<Rightarrow> pystr" where
  "width_tag m = (if m = ''h'' \<or> m = ''hh'' then lit m else [])"

definition arg_width :: "string \<Rightarrow> int" where
  "arg_width m = (if m = ''h'' then 2 else if m = ''hh'' then 1 else 4)"

section \<open>Evaluation at concrete inputs\<close>

lemmas codec_defs =
  printf_decode_def decode_record_def render_record_def decode_loop.simps
  lit_def ch_def chr_def bytes_of_def ascii_decode_def ascii_encode_def
  SPECIFIER_CHARS_def SPECIAL_CHARS_def NON_VALUE_CHARS_def FLOAT_VAL_CHARS_def VALUE_FORMAT_def
  py_slice_from_def py_slice_def py_norm_def py_index_def py_last_def
  parse_length_chars_def len_char_set_def struct_calcsize_def struct_unpack0_def
  le_sint_def sprintf_def
  decode_def decode_byte_def init_def reset_def getstate_def setstate_def

lemmas percent_defs =
  percent_def py_emit_def py_convert_def signed_digits_def str_int_def
  decimal.simps octal.simps hexadecimal.simps

lemma parse_length_chars_example:
  "parse_length_chars (lit ''%-5hh'') (lit ''d'') = Inr (lit ''%-5d'', lit ''hhd'')"
  by (simp add: codec_defs)

section \<open>The length returned by \<^verbatim>\<open>printf_decode\<close>\<close>

text \<open>
  Claim C9. For every input buffer and error policy, the integer that \<^verbatim>\<open>printf_decode\<close>
  returns as the second element of its result is the length of the decoded output string
  (\<^verbatim>\<open>len(r)\<close>), not the number of input bytes consumed.
\<close>

theorem printf_decode_returns_output_length:
  assumes "printf_decode F data errs = Inr (r, n)"
  shows "n = int (length r)"
  using assms by (auto simp: printf_decode_def split: sum.splits)

text \<open>The input \<^verbatim>\<open>b'The value is \xA5hhd\xff'\<close> of the module's own demonstration: 18
  bytes in, 15 characters out.\<close>

theorem printf_decode_returns_output_length_witness:
  "printf_decode percent (bytes_of ''The value is '' @ [0xA5] @ bytes_of ''hhd'' @ [0xFF]) Strict
     = Inr (lit ''The value is -1'', 15)
   \<and> (15 :: int) = int (length (lit ''The value is -1''))
   \<and> length (bytes_of ''The value is '' @ [0xA5] @ bytes_of ''hhd'' @ [0xFF]) = 18"
proof -
  have h: "printf_decode percent (bytes_of ''The value is '' @ [0xA5] @ bytes_of ''hhd'' @ [0xFF]) Strict
             = Inr (lit ''The value is -1'', 15)"
    by (simp add: codec_defs percent_defs)
  have "(15 :: int) = int (length (lit ''The value is -1''))"
    by (rule printf_decode_returns_output_length [OF h])
  with h show ?thesis by (simp add: bytes_of_def)
qed

section \<open>State export and import\<close>

text \<open>
  Claim C8. The phase tag of the exported state tuple has no effect on import: for every
  byte string \<open>b\<close> and any two tags \<open>s1\<close> and \<open>s2\<close>, \<^verbatim>\<open>setstate((b, s1))\<close> and
  \<^verbatim>\<open>setstate((b, s2))\<close> leave the decoder in the same internal state (or raise the
  same exception), because \<^verbatim>\<open>setstate\<close> resets and replays the byte component only.
\<close>

theorem setstate_ignores_phase_tag:
  "setstate F (b, s1) d = setstate F (b, s2) d"
  by (simp add: setstate_def)

text \<open>
  Claim C2 (the code departs from it). After the prefix \<^verbatim>\<open>b'\xA5h'\<close> the decoder is
  in \<open>FIND_FMT_END\<close> with the template \<^verbatim>\<open>%h\<close>. \<^verbatim>\<open>getstate\<close> exports
  \<^verbatim>\<open>(b'%h', 1)\<close>: the template's bytes, without the escape marker. \<^verbatim>\<open>setstate\<close>
  replays them from the reset state, where they are literal text, and leaves the decoder in
  \<open>FIND_FMT_START\<close> with an empty template. The remaining bytes \<^verbatim>\<open>b'd\x01\x00'\<close>
  then come out as the text \<^verbatim>\<open>d\x01\<close>, where the uninterrupted decoder renders the
  16-bit value 1.
\<close>

theorem getstate_setstate_loses_record:
  "decode F (init Strict) [0xA5, 0x68] False =
     Inr (\<lparr>errors = Strict, print_fmt = lit ''%h'', data_buffer = [], val_len = 0,
           val_fmt = [], state = FIND_FMT_END, len = None\<rparr>, [])
   \<and> getstate \<lparr>errors = Strict, print_fmt = lit ''%h'', data_buffer = [], val_len = 0,
           val_fmt = [], state = FIND_FMT_END, len = None\<rparr> = Inr ([0x25, 0x68], 1)
   \<and> setstate F ([0x25, 0x68], 1)
         \<lparr>errors = Strict, print_fmt = lit ''%h'', data_buffer = [], val_len = 0,
           val_fmt = [], state = FIND_FMT_END, len = None\<rparr> = Inr (init Strict)
   \<and> decode percent (init Strict) [0x64, 1, 0] False = Inr (init Strict, [0x64, 1])
   \<and> decode percent
         \<lparr>errors = Strict, print_fmt = lit ''%h'', data_buffer = [], val_len = 0,
           val_fmt = [], state = FIND_FMT_END, len = None\<rparr> [0x64, 1, 0] False =
       Inr (\<lparr>errors = Strict, print_fmt = lit ''%d'', data_buffer = [1, 0], val_len = 2,
             val_fmt = ''<h'', state = FIND_FMT_START, len = None\<rparr>, lit ''1'')"
  by (simp add: codec_defs percent_defs)

section \<open>One-shot against streaming\<close>

text \<open>
  Claim C1 (the code departs from it). On \<^verbatim>\<open>b'\xA5%a'\<close> the one-shot decoder returns
  \<^verbatim>\<open>%a\<close>. The streaming decoder emits \<^verbatim>\<open>%\<close> and stays in \<open>FIND_FMT_END\<close>
  (\<^verbatim>\<open>self.FIND_FMT_START\<close> on line 254 assigns nothing), takes \<^verbatim>\<open>a\<close> into the
  template and, at finalize, flushes the template \<^verbatim>\<open>%%a\<close>: its output is
  \<^verbatim>\<open>%%%a\<close>, for every formatter and error policy.
\<close>

theorem one_shot_differs_from_streaming:
  "printf_decode F [0xA5, 0x25, 0x61] errs = Inr (lit ''%a'', 2)
   \<and> decode F (init errs) [0xA5, 0x25, 0x61] True = Inr (init errs, lit ''%%%a'')"
  by (cases errs) (simp_all add: codec_defs)

text \<open>
  Claim C6 (the code departs from it in the streaming decoder). In the one-shot decoder a
  record ending in \<^verbatim>\<open>%\<close> emits one \<^verbatim>\<open>%\<close>, consumes no argument byte, and the next
  byte is literal text. In the streaming decoder \<^verbatim>\<open>%\<close> is emitted but the machine is
  still in \<open>FIND_FMT_END\<close>: the next byte \<^verbatim>\<open>a\<close> is appended to the template and
  not to the output.
\<close>

theorem percent_record_stays_in_FIND_FMT_END:
  "printf_decode F [0xA5, 0x25, 0x61] errs = Inr (lit ''%a'', 2)
   \<and> decode F (init errs) [0xA5, 0x25] False =
       Inr (\<lparr>errors = errs, print_fmt = lit ''%%'', data_buffer = [], val_len = 0,
             val_fmt = [], state = FIND_FMT_END, len = None\<rparr>, lit ''%'')
   \<and> decode F (init errs) [0xA5, 0x25, 0x61] False =
       Inr (\<lparr>errors = errs, print_fmt = lit ''%%a'', data_buffer = [], val_len = 0,
             val_fmt = [], state = FIND_FMT_END, len = None\<rparr>, lit ''%'')"
  by (cases errs) (simp_all add: codec_defs)

text \<open>
  Claim C7 (the code departs from it in the one-shot decoder). On the literal text
  \<^verbatim>\<open>b'a\x00b'\<close> the streaming decoder drops the NUL and returns \<^verbatim>\<open>ab\<close>; the
  one-shot decoder passes the run through the ASCII codec, which keeps the NUL, and returns
  the three characters \<^verbatim>\<open>a\x00b\<close>.
\<close>

theorem one_shot_keeps_NUL_in_literal_text:
  "printf_decode F [0x61, 0, 0x62] errs = Inr ([0x61, 0, 0x62], 3)
   \<and> decode F (init errs) [0x61, 0, 0x62] True = Inr (init errs, [0x61, 0x62])"
  by (cases errs) (simp_all add: codec_defs)

section \<open>Exceptions of the one-shot decoder\<close>

text \<open>
  Claim C3 (the code departs from it). Under the non-strict policies the one-shot decoder
  raises on a record whose argument bytes are missing (\<^verbatim>\<open>b'\xA5d'\<close>: struct.error
  from \<^verbatim>\<open>struct.unpack\<close>), on a wildcard that is the last byte (\<^verbatim>\<open>b'\xA5*'\<close>:
  IndexError from \<^verbatim>\<open>print_data[i]\<close>) and on an escape marker that is the last byte
  (\<^verbatim>\<open>b'\xA5'\<close>: \<^verbatim>\<open>c\<close> is read before any assignment), whatever the formatter.
\<close>

theorem one_shot_raises_on_truncated_record:
  "printf_decode F [0xA5, 0x64] Replace = Inl StructError
   \<and> printf_decode F [0xA5, 0x64] Ignore = Inl StructError
   \<and> printf_decode F [0xA5, 0x2A] Replace = Inl IndexError
   \<and> printf_decode F [0xA5, 0x2A] Ignore = Inl IndexError
   \<and> printf_decode F [0xA5] Replace = Inl UnboundLocalError
   \<and> printf_decode F [0xA5] Ignore = Inl UnboundLocalError"
  by (simp add: codec_defs)

section \<open>The fallback of \<^verbatim>\<open>sprintf\<close>\<close>









subsection \<open>No TypeError leaves the decoders\<close>

























section \<open>Scanning a specifier\<close>

lemma chr_of_char: "chr (of_char c) = of_char c"
proof -
  have "(of_char c :: byte) = of_nat (of_char c)"
    by (simp add: of_nat_of_char)
  then have "unat (of_char c :: byte) = of_char c mod 2 ^ 8"
    by (simp add: unat_of_nat)
  then show ?thesis by (simp add: chr_def)
qed

lemma chr_bytes_of: "map chr (bytes_of s) = lit s"
  by (simp add: bytes_of_def lit_def chr_of_char)

lemma plain_not_NUL: "plain b \<Longrightarrow> chr b \<noteq> 0"
  by (auto simp: plain_def SPECIFIER_CHARS_def NON_VALUE_CHARS_def)

lemma plain_modifiers: "m \<in> set length_modifiers \<Longrightarrow> \<forall>b \<in> set (bytes_of m). plain b"
  by (auto simp: length_modifiers_def plain_def codec_defs)

lemma special_keys:
  "map_of SPECIAL_CHARS x = Some l \<Longrightarrow> x \<in> {0xD8, 0xE4, 0xE9, 0xEF, 0xF5, 0xF8}"
  by (auto simp: SPECIAL_CHARS_def split: if_splits)

lemma special_is_specifier: "map_of SPECIAL_CHARS x = Some l \<Longrightarrow> x \<in> set SPECIFIER_CHARS"
  by (auto simp: SPECIFIER_CHARS_def dest!: map_of_SomeD intro: rev_image_eqI)

lemma special_not_value: "map_of SPECIAL_CHARS x = Some l \<Longrightarrow> map_of VALUE_FORMAT [x] = None"
  by (auto dest!: special_keys simp: VALUE_FORMAT_def lit_def)

lemma value_is_specifier: "map_of VALUE_FORMAT [x] = Some f \<Longrightarrow> x \<in> set SPECIFIER_CHARS"
  by (auto simp: codec_defs split: if_splits)

lemma scan_plain:
  "\<forall>b \<in> set sp. plain b \<Longrightarrow>
   scan (sp @ rest) i pf c =
     scan rest (i + int (length sp)) (pf @ map chr sp)
       (if sp = [] then c else Some (chr (last sp)))"
proof (induction sp arbitrary: i pf c)
  case Nil
  show ?case by simp
next
  case (Cons b sp)
  have b: "chr b \<notin> set SPECIFIER_CHARS" "chr b \<noteq> ch CHR ''*''"
    using Cons.prems by (simp_all add: plain_def)
  have nz: "chr b \<noteq> 0"
    using Cons.prems by (simp add: plain_not_NUL)
  have "scan ((b # sp) @ rest) i pf c = scan (sp @ rest) (i + 1) (pf @ [chr b]) (Some (chr b))"
    using b nz by simp
  also have "\<dots> = scan rest (i + 1 + int (length sp)) ((pf @ [chr b]) @ map chr sp)
                      (if sp = [] then Some (chr b) else Some (chr (last sp)))"
    using Cons.prems by (subst Cons.IH) simp_all
  finally show ?case by (simp add: add.assoc)
qed

lemma scan_terminal:
  assumes "chr k \<in> set SPECIFIER_CHARS" "chr k \<noteq> 0"
  shows "scan (k # rest) i pf c = Inr (i + 1, pf @ [chr k], Some (chr k))"
proof -
  have "chr k \<noteq> ch CHR ''*''"
    using assms(1) by (auto simp: codec_defs)
  then show ?thesis using assms by simp
qed

lemma scan_specifier:
  assumes "\<forall>b \<in> set sp. plain b" "chr k \<in> set SPECIFIER_CHARS" "chr k \<noteq> 0"
  shows "scan (sp @ k # rest) 0 pf c =
           Inr (int (length sp) + 1, pf @ map chr sp @ [chr k], Some (chr k))"
proof -
  have "scan (sp @ k # rest) 0 pf c =
          scan (k # rest) (0 + int (length sp)) (pf @ map chr sp)
            (if sp = [] then c else Some (chr (last sp)))"
    using assms(1) by (rule scan_plain)
  also have "\<dots> = Inr (0 + int (length sp) + 1, (pf @ map chr sp) @ [chr k], Some (chr k))"
    using assms(2,3) by (rule scan_terminal)
  finally show ?thesis by simp
qed

lemma decode_byte_plain:
  assumes "state d = FIND_FMT_END" "plain b"
  shows "decode_byte F d b = Inr (d\<lparr>print_fmt := print_fmt d @ [chr b]\<rparr>, [])"
proof -
  have n: "chr b \<notin> set SPECIFIER_CHARS" and s: "chr b \<noteq> ch CHR ''*''"
    using assms(2) by (simp_all add: plain_def)
  have v: "map_of VALUE_FORMAT [chr b] = None"
    using n value_is_specifier by (cases "map_of VALUE_FORMAT [chr b]") auto
  have sc: "map_of SPECIAL_CHARS (chr b) = None"
    using n special_is_specifier by (cases "map_of SPECIAL_CHARS (chr b)") auto
  have f: "chr b \<notin> set FLOAT_VAL_CHARS" and nv: "chr b \<notin> set NON_VALUE_CHARS"
    using n by (simp_all add: SPECIFIER_CHARS_def)
  show ?thesis
    using assms(1) v sc f nv s by (simp add: decode_byte_def)
qed

lemma decode_bytes_plain:
  "state d = FIND_FMT_END \<Longrightarrow> \<forall>b \<in> set sp. plain b \<Longrightarrow>
   decode_bytes F d (sp @ rest) r =
     decode_bytes F (d\<lparr>print_fmt := print_fmt d @ map chr sp\<rparr>) rest r"
proof (induction sp arbitrary: d)
  case Nil
  show ?case by simp
next
  case (Cons b sp)
  have "decode_bytes F d ((b # sp) @ rest) r =
          decode_bytes F (d\<lparr>print_fmt := print_fmt d @ [chr b]\<rparr>) (sp @ rest) r"
    using Cons.prems by (simp add: decode_byte_plain)
  also have "\<dots> = decode_bytes F
       (d\<lparr>print_fmt := print_fmt d @ [chr b]\<rparr>
          \<lparr>print_fmt := print_fmt (d\<lparr>print_fmt := print_fmt d @ [chr b]\<rparr>) @ map chr sp\<rparr>) rest r"
    using Cons.prems by (intro Cons.IH) simp_all
  finally show ?case by simp
qed

subsection \<open>Slices and the length modifiers\<close>

lemma find_byte_absent: "b \<notin> set xs \<Longrightarrow> find_byte xs b = -1"
  by (induction xs) auto

lemma ascii_decode_Nil: "ascii_decode errs [] = Inr []"
  by (cases errs) (simp_all add: ascii_decode_def)

lemma py_slice_from_append: "py_slice_from (xs @ ys) (int (length xs)) = ys"
  by (simp add: py_slice_from_def py_norm_def)

lemma py_slice_backwards: "1 \<le> i \<Longrightarrow> py_slice xs i (i - 1) = []"
  by (auto simp: py_slice_def py_norm_def Let_def min_def)

lemma py_index_append: "py_index (xs @ y # ys) (int (length xs)) = Inr y"
  by (simp add: py_index_def)

lemma py_last_snoc: "py_last (xs @ [x]) = Inr x"
  by (simp add: py_last_def py_index_def)

lemma py_last_nonempty: "xs \<noteq> [] \<Longrightarrow> py_last xs = Inr (last xs)"
  by (cases xs rule: rev_cases) (simp_all add: py_last_snoc)

lemma parse_length_chars_strips:
  assumes "p \<noteq> []" "last p \<notin> set len_char_set" "m \<in> set length_modifiers" "vc \<noteq> []"
  shows "parse_length_chars (p @ lit m) vc = Inr (p @ vc, width_tag m @ vc)"
proof -
  have l: "py_last p = Inr (last p)" using assms(1) by (rule py_last_nonempty)
  have l1: "py_last (p @ [x]) = Inr x" for x by (rule py_last_snoc)
  have l2: "py_last (p @ [x, y]) = Inr y" for x y using py_last_snoc[of "p @ [x]" y] by simp
  have bl2: "butlast (p @ [x, y]) = p @ [x]" for x y :: nat by (simp add: butlast_append)
  note defs = parse_length_chars_def lit_def ch_def len_char_set_def width_tag_def
  consider "m = ''''" | "m = ''h''" | "m = ''hh''" | "m = ''l''" | "m = ''ll''" | "m = ''L''"
    | "m = ''j''" | "m = ''z''" | "m = ''t''"
    using assms(3) by (auto simp: length_modifiers_def)
  then show ?thesis
  proof cases
    case 1 then show ?thesis using assms l by (simp add: defs)
  next
    case 2 then show ?thesis using assms l l1 by (simp add: defs)
  next
    case 3 then show ?thesis using assms l l1 l2 bl2 by (simp add: defs)
  next
    case 4 then show ?thesis using assms l l1 by (simp add: defs)
  next
    case 5 then show ?thesis using assms l l1 l2 bl2 by (simp add: defs)
  next
    case 6 then show ?thesis using assms l l1 by (simp add: defs)
  next
    case 7 then show ?thesis using assms l l1 by (simp add: defs)
  next
    case 8 then show ?thesis using assms l l1 by (simp add: defs)
  next
    case 9 then show ?thesis using assms l l1 by (simp add: defs)
  qed
qed

section \<open>Records that end in a special byte\<close>

text \<open>
  Claim C5, as the spec states it, fails: a special byte never selects the 4-byte or the
  2-byte width. In \<^verbatim>\<open>b'\xA5\xEF@ABC'\<close> the byte \<^verbatim>\<open>0xEF\<close> stands for \<^verbatim>\<open>o\<close> with
  no length modifier; the decoders take the one byte \<^verbatim>\<open>@\<close> (64, octal 100) as the
  value, and \<^verbatim>\<open>ABC\<close> is literal text. With the modifier \<^verbatim>\<open>h\<close> it is one byte too.
\<close>

theorem special_byte_without_modifier_takes_one_byte:
  "decode_record percent Strict None [0xEF, 0x40, 0x41, 0x42, 0x43] =
     Inr (lit ''100'', 2, Some 0xEF)
   \<and> printf_decode percent [0xA5, 0xEF, 0x40, 0x41, 0x42, 0x43] Strict = Inr (lit ''100ABC'', 6)
   \<and> decode percent (init Strict) [0xA5, 0xEF, 0x40, 0x41, 0x42, 0x43] True =
       Inr (\<lparr>errors = Strict, print_fmt = lit ''%o'', data_buffer = [0x40], val_len = 1,
             val_fmt = ''<B'', state = FIND_FMT_START, len = None\<rparr>, lit ''100ABC'')
   \<and> printf_decode percent [0xA5, 0x68, 0xEF, 0x40, 0x41] Strict = Inr (lit ''100A'', 4)"
  by (simp add: codec_defs percent_defs)

text \<open>
  Claim C5, amended. For every record whose terminal byte \<open>k\<close> is one of the 6 reserved
  special bytes, after any plain specifier bytes \<open>sp\<close> and any length modifier \<open>m\<close>
  (none, h, hh, l, ll, L, j, z, t): the length modifier is stripped, the special byte is
  replaced by the conversion letter \<open>l\<close> it maps to, and exactly one raw argument byte
  \<open>b\<close> is consumed and rendered as the unsigned value of that byte, whatever the length
  modifier. The one-shot decoder leaves its read position right after \<open>b\<close>; the streaming
  decoder is back in \<open>FIND_FMT_START\<close> after \<open>b\<close>.
\<close>

theorem special_byte_takes_one_argument_byte:
  assumes sp: "\<forall>x \<in> set sp. plain x"
    and stem: "sp = [] \<or> chr (last sp) \<notin> set len_char_set"
    and m: "m \<in> set length_modifiers"
    and k: "map_of SPECIAL_CHARS (chr k) = Some l"
    and d: "state d = FIND_FMT_START"
  shows "decode_record F errs c0 (sp @ bytes_of m @ k # b # rest) =
           (case sprintf F (lit ''%'' @ map chr sp @ [l]) (PyInt (uint b)) of
              Inl e \<Rightarrow> Inl e
            | Inr t \<Rightarrow> Inr (t, int (length sp + length m) + 2, Some (chr k)))
         \<and> decode F d (0xA5 # sp @ bytes_of m @ [k, b]) False =
           (case sprintf F (lit ''%'' @ map chr sp @ [l]) (PyInt (uint b)) of
              Inl e \<Rightarrow> Inl e
            | Inr t \<Rightarrow>
                Inr (d\<lparr>print_fmt := lit ''%'' @ map chr sp @ [l], data_buffer := [b],
                        val_len := 1, val_fmt := ''<B'', state := FIND_FMT_START\<rparr>, t))"
proof -
  let ?sm = "sp @ bytes_of m"
  let ?p = "lit ''%'' @ map chr sp"
  let ?tmpl = "lit ''%'' @ map chr sp @ [l]"
  have plain_sm: "\<forall>x \<in> set ?sm. plain x"
    using sp plain_modifiers [OF m] by auto
  have chr_sm: "map chr ?sm = map chr sp @ lit m"
    by (simp add: chr_bytes_of)
  have len_m: "length (bytes_of m) = length m"
    by (simp add: bytes_of_def)
  have spec_k: "chr k \<in> set SPECIFIER_CHARS"
    using k by (rule special_is_specifier)
  have k_nz: "chr k \<noteq> 0"
    using special_keys [OF k] by auto
  have not_value: "map_of VALUE_FORMAT [chr k] = None"
    using k by (rule special_not_value)
  have p_ne: "?p \<noteq> []"
    by (simp add: lit_def)
  have p_last: "last ?p \<notin> set len_char_set"
  proof (cases "sp = []")
    case True
    then show ?thesis by (simp add: lit_def len_char_set_def)
  next
    case False
    then have "last ?p = chr (last sp)" by (simp add: last_map)
    with stem False show ?thesis by simp
  qed
  obtain tag where parse: "parse_length_chars (?p @ lit m) [l] = Inr (?p @ [l], tag @ [l])"
    using parse_length_chars_strips [OF p_ne p_last m, of "[l]"] by auto
  then have parse':
    "parse_length_chars (lit ''%'' @ map chr sp @ lit m) [l] = Inr (?tmpl, tag @ [l])"
    by simp

  define pd where "pd = sp @ bytes_of m @ k # b # rest"
  define i where "i = int (length sp + length m) + 1"
  define pf where "pf = lit ''%'' @ map chr sp @ lit m @ [chr k]"
  have scan_eq: "scan pd 0 (lit ''%'') c0 = Inr (i, pf, Some (chr k))"
    using scan_specifier [OF plain_sm spec_k k_nz, of "b # rest" "lit ''%''" c0]
    by (simp add: pd_def i_def pf_def chr_bytes_of len_m)
  have idx: "py_index pd i = Inr b"
    using py_index_append [of "?sm @ [k]" b rest] by (simp add: pd_def i_def len_m ac_simps)
  have butlast_eq: "butlast pf = lit ''%'' @ map chr sp @ lit m"
    by (simp add: pf_def butlast_append)
  have render: "render_record F errs pd i pf (Some (chr k)) =
      (case sprintf F ?tmpl (PyInt (uint b)) of
         Inl e \<Rightarrow> Inl e
       | Inr t \<Rightarrow> Inr (t, i + 1))"
    by (simp add: render_record_def not_value k butlast_eq parse' idx)
  have one_shot: "decode_record F errs c0 (sp @ bytes_of m @ k # b # rest) =
           (case sprintf F ?tmpl (PyInt (uint b)) of
              Inl e \<Rightarrow> Inl e
            | Inr t \<Rightarrow> Inr (t, int (length sp + length m) + 2, Some (chr k)))"
  proof -
    have i2: "i + 1 = int (length sp + length m) + 2"
      by (simp add: i_def)
    show ?thesis
      unfolding decode_record_def pd_def [symmetric] scan_eq
      by (simp add: render i2 split: sum.splits)
  qed

  let ?d0 = "(reset d)\<lparr>print_fmt := lit ''%'', state := FIND_FMT_END\<rparr>"
  let ?d1 = "?d0\<lparr>print_fmt := print_fmt ?d0 @ map chr ?sm\<rparr>"
  let ?d2 = "d\<lparr>print_fmt := ?tmpl, data_buffer := [], val_len := 1, val_fmt := ''<B'',
               state := CAP_VALUE\<rparr>"
  have first: "decode_byte F d 0xA5 = Inr (?d0, [])"
    using d by (simp add: decode_byte_def chr_def)
  have "decode_bytes F d (0xA5 # ?sm @ [k, b]) [] = decode_bytes F ?d0 (?sm @ [k, b]) []"
    using first by simp
  also have "\<dots> = decode_bytes F ?d1 [k, b] []"
    using plain_sm by (intro decode_bytes_plain) simp_all
  also have "\<dots> = decode_bytes F ?d2 [b] []"
  proof -
    have bl: "butlast (lit ''%'' @ map chr sp @ lit m @ [x]) = lit ''%'' @ map chr sp @ lit m"
      for x by (simp add: butlast_append)
    have "decode_byte F ?d1 k = Inr (?d2, [])"
      using not_value k parse'
      by (simp add: decode_byte_def Let_def reset_def chr_bytes_of bl)
    then show ?thesis by simp
  qed
  also have "\<dots> =
      (case sprintf F ?tmpl (PyInt (uint b)) of
         Inl e \<Rightarrow> Inl e
       | Inr t \<Rightarrow>
           Inr (d\<lparr>print_fmt := ?tmpl, data_buffer := [b], val_len := 1, val_fmt := ''<B'',
                   state := FIND_FMT_START\<rparr>, t))"
    by (simp add: decode_byte_def Let_def struct_unpack0_def struct_calcsize_def
        split: sum.splits)
  finally have streaming: "decode F d (0xA5 # sp @ bytes_of m @ [k, b]) False =
      (case sprintf F ?tmpl (PyInt (uint b)) of
         Inl e \<Rightarrow> Inl e
       | Inr t \<Rightarrow>
           Inr (d\<lparr>print_fmt := ?tmpl, data_buffer := [b], val_len := 1, val_fmt := ''<B'',
                   state := FIND_FMT_START\<rparr>, t))"
    by (simp add: decode_def split: sum.splits)
  from one_shot streaming show ?thesis by simp
qed

text \<open>The record \<^verbatim>\<open>b'\xA5-h\xF8\x12'\<close>, followed by \<^verbatim>\<open>4\<close> in the one-shot input: the
  flag \<^verbatim>\<open>-\<close> is kept, the modifier \<^verbatim>\<open>h\<close> is stripped, \<^verbatim>\<open>0xF8\<close> stands for
  \<^verbatim>\<open>x\<close>, and the single byte \<^verbatim>\<open>0x12\<close> is rendered by \<^verbatim>\<open>%-x\<close> as \<^verbatim>\<open>12\<close>.\<close>

theorem special_byte_takes_one_argument_byte_witness:
  "plain 0x2D
   \<and> chr 0x2D \<notin> set len_char_set
   \<and> ''h'' \<in> set length_modifiers
   \<and> map_of SPECIAL_CHARS (chr 0xF8) = Some (ch CHR ''x'')
   \<and> state (init Strict) = FIND_FMT_START
   \<and> decode_record percent Strict None ([0x2D] @ bytes_of ''h'' @ [0xF8, 0x12, 0x34]) =
       Inr (lit ''12'', 4, Some 0xF8)
   \<and> decode percent (init Strict) (0xA5 # [0x2D] @ bytes_of ''h'' @ [0xF8, 0x12]) False =
       Inr (\<lparr>errors = Strict, print_fmt = lit ''%-x'', data_buffer = [0x12], val_len = 1,
             val_fmt = ''<B'', state = FIND_FMT_START, len = None\<rparr>, lit ''12'')"
proof -
  have p: "plain 0x2D" by (simp add: plain_def codec_defs)
  have q: "chr 0x2D \<notin> set len_char_set" by (simp add: codec_defs)
  have h1: "\<forall>x \<in> set [0x2D :: byte]. plain x" using p by simp
  have h2: "[0x2D :: byte] = [] \<or> chr (last [0x2D]) \<notin> set len_char_set" using q by simp
  have h3: "''h'' \<in> set length_modifiers" by (simp add: length_modifiers_def)
  have h4: "map_of SPECIAL_CHARS (chr 0xF8) = Some (ch CHR ''x'')"
    by (simp add: SPECIAL_CHARS_def chr_def ch_def)
  have h5: "state (init Strict) = FIND_FMT_START" by (simp add: init_def)
  have r: "sprintf percent (lit ''%'' @ map chr [0x2D] @ [ch CHR ''x'']) (PyInt (uint (0x12 :: byte)))
             = Inr (lit ''12'')"
    by (simp add: sprintf_def percent_defs lit_def ch_def chr_def)
  note t = special_byte_takes_one_argument_byte [OF h1 h2 h3 h4 h5,
      of percent Strict None "0x12" "[0x34]"]
  have "decode_record percent Strict None ([0x2D] @ bytes_of ''h'' @ [0xF8, 0x12, 0x34]) =
       Inr (lit ''12'', 4, Some 0xF8)"
    by (simp only: t [THEN conjunct1] r sum.case) (simp add: chr_def)
  moreover have "decode percent (init Strict) (0xA5 # [0x2D] @ bytes_of ''h'' @ [0xF8, 0x12]) False =
       Inr (\<lparr>errors = Strict, print_fmt = lit ''%-x'', data_buffer = [0x12], val_len = 1,
             val_fmt = ''<B'', state = FIND_FMT_START, len = None\<rparr>, lit ''12'')"
    by (simp only: t [THEN conjunct2] r sum.case) (simp add: init_def lit_def ch_def chr_def)
  ultimately show ?thesis using p q h3 h4 h5 by simp
qed

section \<open>A string record without its terminating NUL\<close>

text \<open>
  Claim C10, as stated, fails. In \<^verbatim>\<open>b'\xA5sabc'\<close> no NUL follows the \<^verbatim>\<open>s\<close>, so
  \<^verbatim>\<open>find\<close> returns -1 and the payload slice is \<^verbatim>\<open>print_data[1:0]\<close>, the empty
  string, not \<^verbatim>\<open>ab\<close>: the template is rendered against \<^verbatim>\<open>''\<close> and the output
  is \<^verbatim>\<open>abc\<close>, where the claim gives \<^verbatim>\<open>ab\<close> followed by \<^verbatim>\<open>abc\<close>.
\<close>

theorem string_record_without_NUL_renders_empty_string:
  "printf_decode percent (0xA5 # bytes_of ''sabc'') Strict = Inr (lit ''abc'', 3)
   \<and> printf_decode percent (0xA5 # bytes_of ''sabc'') Strict \<noteq> Inr (lit ''ababc'', 5)
   \<and> decode_record percent Strict None (bytes_of ''sabc'') = Inr ([], 1, Some (ch CHR ''s''))"
  by (simp add: codec_defs percent_defs)

text \<open>
  Claim C10, amended. For every one-shot decode in which the payload of an
  \<^verbatim>\<open>s\<close>-conversion record (plain specifier bytes \<open>sp\<close>, then \<^verbatim>\<open>s\<close>) contains no NUL
  byte anywhere in the remaining input, \<^verbatim>\<open>printf_decode\<close> renders the template against
  the empty string and leaves the read position right after the \<^verbatim>\<open>s\<close>: the loop goes
  on with the whole payload as the rest of the input, its text up to the next escape marker
  appended as literal text. No error is raised for the missing NUL; the only exceptions are
  those of the formatter and of the ASCII decoding of that literal text.
\<close>

theorem string_record_without_NUL:
  assumes sp: "\<forall>x \<in> set sp. plain x"
    and no_NUL: "0 \<notin> set payload"
  shows "decode_loop F errs c r (pre, Some (sp @ 0x73 # payload)) =
           (case sprintf F (lit ''%'' @ map chr sp @ lit ''s'') (PyStr []) of
              Inl e \<Rightarrow> Inl e
            | Inr t \<Rightarrow>
                (case ascii_decode errs (fst (split_marker payload)) of
                   Inl e \<Rightarrow> Inl e
                 | Inr l \<Rightarrow>
                     decode_loop F errs (Some (ch CHR ''s'')) (r @ t @ l) (split_marker payload)))"
proof -
  define pd where "pd = sp @ 0x73 # payload"
  define i where "i = int (length sp) + 1"
  define pf where "pf = lit ''%'' @ map chr sp @ lit ''s''"
  have s: "chr 0x73 = ch CHR ''s''"
    by (simp add: chr_def ch_def)
  have spec: "chr 0x73 \<in> set SPECIFIER_CHARS" and nz: "chr 0x73 \<noteq> 0"
    by (simp_all add: codec_defs)
  have scan_eq: "scan pd 0 (lit ''%'') c = Inr (i, pf, Some (ch CHR ''s''))"
    using scan_specifier [OF sp spec nz, of payload "lit ''%''" c]
    by (simp add: pd_def i_def pf_def s lit_def ch_def)
  have rest: "py_slice_from pd i = payload"
    using py_slice_from_append [of "sp @ [0x73]" payload] by (simp add: pd_def i_def ac_simps)
  have absent: "find_byte payload 0 = -1"
    using no_NUL by (rule find_byte_absent)
  have empty: "py_slice pd i (i - 1) = []"
    by (rule py_slice_backwards) (simp add: i_def)
  have not_value: "map_of VALUE_FORMAT [115] = None"
    and not_special: "map_of SPECIAL_CHARS 115 = None"
    and not_float: "115 \<notin> set FLOAT_VAL_CHARS"
    by (simp_all add: codec_defs)
  have render: "render_record F errs pd i pf (Some (ch CHR ''s'')) =
      (case sprintf F pf (PyStr []) of Inl e \<Rightarrow> Inl e | Inr t \<Rightarrow> Inr (t, i))"
    by (simp add: render_record_def not_value not_special not_float rest absent empty
        ascii_decode_Nil ch_def split: sum.splits)
  have rec_eq: "decode_record F errs c pd =
      (case sprintf F pf (PyStr []) of Inl e \<Rightarrow> Inl e | Inr t \<Rightarrow> Inr (t, i, Some (ch CHR ''s'')))"
    unfolding decode_record_def scan_eq
    by (simp add: render split: sum.splits)
  show ?thesis
    unfolding pd_def [symmetric] pf_def [symmetric]
    by (subst decode_loop.simps) (simp add: rec_eq rest split: sum.splits)
qed

text \<open>The input \<^verbatim>\<open>b'\xA5-sabc'\<close>: the template \<^verbatim>\<open>%-s\<close> renders the empty
  string and \<^verbatim>\<open>abc\<close> follows as literal text.\<close>

theorem string_record_without_NUL_witness:
  "plain 0x2D
   \<and> 0 \<notin> set (bytes_of ''abc'')
   \<and> decode_loop percent Strict None [] ([], Some ([0x2D] @ 0x73 # bytes_of ''abc'')) =
       Inr (lit ''abc'')
   \<and> printf_decode percent (0xA5 # [0x2D] @ 0x73 # bytes_of ''abc'') Strict = Inr (lit ''abc'', 3)"
proof -
  have p: "plain 0x2D" by (simp add: plain_def codec_defs)
  have h1: "\<forall>x \<in> set [0x2D :: byte]. plain x" using p by simp
  have h2: "0 \<notin> set (bytes_of ''abc'')" by (simp add: bytes_of_def)
  have r: "sprintf percent (lit ''%'' @ map chr [0x2D] @ lit ''s'') (PyStr []) = Inr []"
    by (simp add: sprintf_def percent_defs lit_def ch_def chr_def)
  have sm: "split_marker (bytes_of ''abc'') = (bytes_of ''abc'', None)"
    by (simp add: bytes_of_def)
  have a: "ascii_decode Strict (bytes_of ''abc'') = Inr (lit ''abc'')"
    by (simp add: codec_defs)
  have "decode_loop percent Strict None [] ([], Some ([0x2D] @ 0x73 # bytes_of ''abc'')) =
          (case sprintf percent (lit ''%'' @ map chr [0x2D] @ lit ''s'') (PyStr []) of
             Inl e \<Rightarrow> Inl e
           | Inr t \<Rightarrow>
               (case ascii_decode Strict (fst (split_marker (bytes_of ''abc''))) of
                  Inl e \<Rightarrow> Inl e
                | Inr l \<Rightarrow>
                    decode_loop percent Strict (Some (ch CHR ''s'')) ([] @ t @ l)
                      (split_marker (bytes_of ''abc''))))"
    by (rule string_record_without_NUL [OF h1 h2])
  also have "\<dots> = Inr (lit ''abc'')"
    by (simp only: r sum.case sm a fst_conv) (simp add: decode_loop.simps)
  finally have l: "decode_loop percent Strict None [] ([], Some ([0x2D] @ 0x73 # bytes_of ''abc'')) =
      Inr (lit ''abc'')" .
  then have "printf_decode percent (0xA5 # [0x2D] @ 0x73 # bytes_of ''abc'') Strict =
      Inr (lit ''abc'', 3)"
    by (simp add: printf_decode_def ascii_decode_Nil lit_def)
  with p h2 l show ?thesis by simp
qed

section \<open>Further properties of the decoders\<close>

lemma decode_bytes_acc:
  "decode_bytes F d vs r =
     (case decode_bytes F d vs [] of Inl e \<Rightarrow> Inl e | Inr (d', t) \<Rightarrow> Inr (d', r @ t))"
proof (induction vs arbitrary: d r)
  case Nil
  show ?case by simp
next
  case (Cons v vs)
  show ?case
  proof (cases "decode_byte F d v")
    case (Inl e)
    then show ?thesis by simp
  next
    case (Inr p)
    obtain d1 t1 where p: "p = (d1, t1)" by (cases p)
    have "decode_bytes F d (v # vs) r = decode_bytes F d1 vs (r @ t1)"
      using Inr p by simp
    also have "\<dots> =
        (case decode_bytes F d1 vs [] of Inl e \<Rightarrow> Inl e | Inr (d', t) \<Rightarrow> Inr (d', (r @ t1) @ t))"
      by (rule Cons.IH)
    finally have lhs: "decode_bytes F d (v # vs) r =
        (case decode_bytes F d1 vs [] of Inl e \<Rightarrow> Inl e | Inr (d', t) \<Rightarrow> Inr (d', r @ t1 @ t))"
      by (simp split: sum.splits prod.splits)
    have "decode_bytes F d (v # vs) [] = decode_bytes F d1 vs t1"
      using Inr p by simp
    also have "\<dots> =
        (case decode_bytes F d1 vs [] of Inl e \<Rightarrow> Inl e | Inr (d', t) \<Rightarrow> Inr (d', t1 @ t))"
      by (rule Cons.IH)
    finally show ?thesis
      using lhs by (simp split: sum.splits prod.splits)
  qed
qed

lemma decode_bytes_append:
  "decode_bytes F d (xs @ ys) r =
     (case decode_bytes F d xs r of Inl e \<Rightarrow> Inl e | Inr (d', r') \<Rightarrow> decode_bytes F d' ys r')"
  by (induction xs arbitrary: d r) (auto split: sum.splits)

text \<open>
  Chunk invariance of the streaming decoder (spec, section 5): feeding \<open>xs\<close> and then
  \<open>ys\<close> gives the decoder and the concatenated output of feeding \<open>xs @ ys\<close> at once,
  whether or not the second call finalizes, and the same exception if one is raised.
\<close>

theorem decode_chunks:
  "decode F d (xs @ ys) final =
     (case decode F d xs False of
        Inl e \<Rightarrow> Inl e
      | Inr (d1, r1) \<Rightarrow>
          (case decode F d1 ys final of
             Inl e \<Rightarrow> Inl e
           | Inr (d2, r2) \<Rightarrow> Inr (d2, r1 @ r2)))"
proof (cases "decode_bytes F d xs []")
  case (Inl e)
  then show ?thesis by (simp add: decode_def decode_bytes_append)
next
  case (Inr p)
  obtain d1 r1 where p: "p = (d1, r1)" by (cases p)
  have first: "decode F d xs False = Inr (d1, r1)"
    using Inr p by (simp add: decode_def)
  have whole: "decode_bytes F d (xs @ ys) [] =
      (case decode_bytes F d1 ys [] of Inl e \<Rightarrow> Inl e | Inr (d', t) \<Rightarrow> Inr (d', r1 @ t))"
    using Inr p decode_bytes_acc [of F d1 ys r1] by (simp add: decode_bytes_append)
  show ?thesis
  proof (cases "decode_bytes F d1 ys []")
    case (Inl e)
    then show ?thesis using first whole by (simp add: decode_def)
  next
    case (Inr q)
    obtain d2 t where q: "q = (d2, t)" by (cases q)
    show ?thesis
      using first whole Inr q by (simp add: decode_def split: sum.splits)
  qed
qed

text \<open>
  Literal text in the streaming decoder (spec, section 6): in \<open>FIND_FMT_START\<close>, bytes
  other than the escape marker are appended to the output as the characters of the same
  code, NUL bytes dropped, and the decoder does not change.
\<close>

theorem streaming_literal_text:
  assumes "state d = FIND_FMT_START" and "0xA5 \<notin> set bs"
  shows "decode F d bs final = Inr (d, map chr (filter (\<lambda>b. b \<noteq> 0) bs))"
proof -
  have nz: "chr b = 0 \<longleftrightarrow> b = 0" for b
    by (simp add: chr_def unat_eq_0)
  have mk: "chr b = 0xA5 \<longleftrightarrow> b = 0xA5" for b
  proof -
    have "unat b = unat (0xA5 :: byte) \<longleftrightarrow> b = 0xA5"
      by (rule word_unat_eq_iff [symmetric])
    then show ?thesis by (simp add: chr_def)
  qed
  have "decode_bytes F d bs r = Inr (d, r @ map chr (filter (\<lambda>b. b \<noteq> 0) bs))" for r
    using assms(2)
  proof (induction bs arbitrary: r)
    case Nil
    show ?case by simp
  next
    case (Cons b bs)
    have step: "decode_byte F d b = Inr (d, if b = 0 then [] else [chr b])"
      using assms(1) Cons.prems by (simp add: decode_byte_def nz mk)
    show ?case
      using Cons step by simp
  qed
  then show ?thesis
    using assms(1) by (simp add: decode_def)
qed

theorem streaming_literal_text_witness:
  "state (init Replace) = FIND_FMT_START
   \<and> 0xA5 \<notin> set [0x61 :: byte, 0, 0xE9, 0x62]
   \<and> decode percent (init Replace) [0x61, 0, 0xE9, 0x62] True = Inr (init Replace, [0x61, 0xE9, 0x62])"
proof -
  have h1: "state (init Replace) = FIND_FMT_START" by (simp add: init_def)
  have h2: "0xA5 \<notin> set [0x61 :: byte, 0, 0xE9, 0x62]" by simp
  show ?thesis
    using streaming_literal_text [OF h1 h2, of percent True] h1 by (simp add: chr_def)
qed

text \<open>
  The percent record in the one-shot decoder (spec, section 4.4): after plain specifier
  bytes, a terminal \<^verbatim>\<open>%\<close> emits exactly one \<^verbatim>\<open>%\<close>, whatever was accumulated,
  calls no formatter and leaves the read position right after the \<^verbatim>\<open>%\<close>, so that no
  argument byte is consumed.
\<close>

theorem one_shot_percent_record:
  assumes "\<forall>x \<in> set sp. plain x"
  shows "decode_record F errs c (sp @ 0x25 # rest) =
           Inr (lit ''%'', int (length sp) + 1, Some (ch CHR ''%''))"
proof -
  have spec: "chr 0x25 \<in> set SPECIFIER_CHARS" and nz: "chr 0x25 \<noteq> 0"
    by (simp_all add: codec_defs)
  have scan_eq: "scan (sp @ 0x25 # rest) 0 (lit ''%'') c =
      Inr (int (length sp) + 1, lit ''%'' @ map chr sp @ [chr 0x25], Some (chr 0x25))"
    using assms spec nz by (rule scan_specifier)
  have c: "chr 0x25 = 37" by (simp add: chr_def)
  have "map_of VALUE_FORMAT [37] = None" "map_of SPECIAL_CHARS 37 = None"
    "37 \<notin> set FLOAT_VAL_CHARS"
    by (simp_all add: codec_defs)
  then have "render_record F errs pd i pf (Some 37) = Inr (lit ''%'', i)" for pd i pf
    by (simp add: render_record_def ch_def)
  then show ?thesis
    unfolding decode_record_def scan_eq by (simp add: c ch_def)
qed

theorem one_shot_percent_record_witness:
  "plain 0x2D
   \<and> decode_record percent Strict None ([0x2D] @ 0x25 # [0x61]) =
       Inr (lit ''%'', 2, Some (ch CHR ''%''))
   \<and> printf_decode percent [0xA5, 0x2D, 0x25, 0x61] Strict = Inr (lit ''%a'', 2)"
proof -
  have p: "plain 0x2D" by (simp add: plain_def codec_defs)
  have h: "\<forall>x \<in> set [0x2D :: byte]. plain x" using p by simp
  have "decode_record percent Strict None ([0x2D] @ 0x25 # [0x61]) =
       Inr (lit ''%'', 2, Some (ch CHR ''%''))"
    using one_shot_percent_record [OF h, of percent Strict None "[0x61]"] by simp
  moreover have "printf_decode percent [0xA5, 0x2D, 0x25, 0x61] Strict = Inr (lit ''%a'', 2)"
    by (simp add: codec_defs)
  ultimately show ?thesis using p by simp
qed

section \<open>Records that end in a numeric conversion letter\<close>

lemma value_format_lookup:
  assumes "m \<in> set length_modifiers" "k \<in> set (lit ''duoxX'')"
  shows "\<exists>sf. map_of VALUE_FORMAT (width_tag m @ [k]) = Some sf
           \<and> struct_calcsize sf = Inr (arg_width m)
           \<and> (\<forall>args. int (length args) = arg_width m \<longrightarrow>
                struct_unpack0 sf args =
                  Inr (PyInt (if k = ch CHR ''d'' then le_sint args else le_uint args)))"
proof -
  consider "m = ''h''" | "m = ''hh''" | "m \<noteq> ''h'' \<and> m \<noteq> ''hh''"
    by blast
  then show ?thesis
  proof cases
    case 1
    then show ?thesis
      using assms(2)
      by (auto simp: width_tag_def arg_width_def VALUE_FORMAT_def lit_def ch_def
          struct_calcsize_def struct_unpack0_def)
  next
    case 2
    then show ?thesis
      using assms(2)
      by (auto simp: width_tag_def arg_width_def VALUE_FORMAT_def lit_def ch_def
          struct_calcsize_def struct_unpack0_def)
  next
    case 3
    then show ?thesis
      using assms(2)
      by (auto simp: width_tag_def arg_width_def VALUE_FORMAT_def lit_def ch_def
          struct_calcsize_def struct_unpack0_def)
  qed
qed

lemma value_letter_facts:
  assumes "k \<in> set (lit ''duoxX'')"
  shows "map_of VALUE_FORMAT [k] \<noteq> None" "k \<in> set SPECIFIER_CHARS" "k \<noteq> 0"
  using assms by (auto simp: codec_defs)

lemma py_slice_middle:
  "py_slice (xs @ ys @ zs) (int (length xs)) (int (length xs) + int (length ys)) = ys"
  by (simp add: py_slice_def py_norm_def Let_def)

lemma cap_value_fill:
  "state d = CAP_VALUE \<Longrightarrow> int (length (data_buffer d @ args)) < val_len d \<Longrightarrow>
   decode_bytes F d args r = Inr (d\<lparr>data_buffer := data_buffer d @ args\<rparr>, r)"
proof (induction args arbitrary: d)
  case Nil
  show ?case by simp
next
  case (Cons a args)
  let ?d1 = "d\<lparr>data_buffer := data_buffer d @ [a]\<rparr>"
  have step: "decode_byte F d a = Inr (?d1, [])"
    using Cons.prems by (simp add: decode_byte_def Let_def)
  have "decode_bytes F ?d1 args r = Inr (?d1\<lparr>data_buffer := data_buffer ?d1 @ args\<rparr>, r)"
    using Cons.prems by (intro Cons.IH) simp_all
  then show ?case using step by simp
qed

text \<open>
  The numeric conversions of the spec (sections 4.2 and 4.3), in both decoders. For a
  record of plain specifier bytes \<open>sp\<close>, a length modifier \<open>m\<close>, a conversion letter
  \<open>k\<close> among d, u, o, x, X and \<open>arg_width m\<close> argument bytes (4 with no modifier or with
  l, ll, L, j, z, t; 2 with h; 1 with hh): the modifier is stripped from the template, the
  argument bytes are read as a little-endian integer, signed for d and unsigned otherwise,
  and exactly those bytes are consumed.
\<close>

theorem numeric_record:
  assumes sp: "\<forall>x \<in> set sp. plain x"
    and stem: "sp = [] \<or> chr (last sp) \<notin> set len_char_set"
    and m: "m \<in> set length_modifiers"
    and k: "chr k \<in> set (lit ''duoxX'')"
    and args: "int (length args) = arg_width m"
    and d: "state d = FIND_FMT_START"
  shows "decode_record F errs c0 (sp @ bytes_of m @ k # args @ rest) =
           (case sprintf F (lit ''%'' @ map chr sp @ [chr k])
                   (PyInt (if chr k = ch CHR ''d'' then le_sint args else le_uint args)) of
              Inl e \<Rightarrow> Inl e
            | Inr t \<Rightarrow> Inr (t, int (length sp + length m) + 1 + arg_width m, Some (chr k)))
         \<and> decode F d (0xA5 # sp @ bytes_of m @ k # args) False =
           (case sprintf F (lit ''%'' @ map chr sp @ [chr k])
                   (PyInt (if chr k = ch CHR ''d'' then le_sint args else le_uint args)) of
              Inl e \<Rightarrow> Inl e
            | Inr t \<Rightarrow>
                Inr (d\<lparr>print_fmt := lit ''%'' @ map chr sp @ [chr k], data_buffer := args,
                        val_len := arg_width m,
                        val_fmt := the (map_of VALUE_FORMAT (width_tag m @ [chr k])),
                        state := FIND_FMT_START\<rparr>, t))"
proof -
  let ?sm = "sp @ bytes_of m"
  let ?p = "lit ''%'' @ map chr sp"
  let ?tmpl = "lit ''%'' @ map chr sp @ [chr k]"
  let ?v = "PyInt (if chr k = ch CHR ''d'' then le_sint args else le_uint args)"
  have plain_sm: "\<forall>x \<in> set ?sm. plain x"
    using sp plain_modifiers [OF m] by auto
  have len_m: "length (bytes_of m) = length m"
    by (simp add: bytes_of_def)
  note kf = value_letter_facts [OF k]
  obtain y where is_value: "map_of VALUE_FORMAT [chr k] = Some y"
    using kf(1) by auto
  have p_ne: "?p \<noteq> []"
    by (simp add: lit_def)
  have p_last: "last ?p \<notin> set len_char_set"
  proof (cases "sp = []")
    case True
    then show ?thesis by (simp add: lit_def len_char_set_def)
  next
    case False
    then have "last ?p = chr (last sp)" by (simp add: last_map)
    with stem False show ?thesis by simp
  qed
  have "parse_length_chars (?p @ lit m) [chr k] = Inr (?p @ [chr k], width_tag m @ [chr k])"
    using parse_length_chars_strips [OF p_ne p_last m, of "[chr k]"] by simp
  then have parse:
    "parse_length_chars (lit ''%'' @ map chr sp @ lit m) [chr k] =
       Inr (?tmpl, width_tag m @ [chr k])"
    by simp
  obtain sf where sf: "map_of VALUE_FORMAT (width_tag m @ [chr k]) = Some sf"
    and size: "struct_calcsize sf = Inr (arg_width m)"
    and unpack: "struct_unpack0 sf args = Inr ?v"
    using value_format_lookup [OF m k] args by blast
  have w_pos: "0 < arg_width m"
    by (simp add: arg_width_def)

  define pd where "pd = sp @ bytes_of m @ k # args @ rest"
  define i where "i = int (length sp + length m) + 1"
  define pf where "pf = lit ''%'' @ map chr sp @ lit m @ [chr k]"
  have scan_eq: "scan pd 0 (lit ''%'') c0 = Inr (i, pf, Some (chr k))"
    using scan_specifier [OF plain_sm kf(2) kf(3), of "args @ rest" "lit ''%''" c0]
    by (simp add: pd_def i_def pf_def chr_bytes_of len_m)
  have slice: "py_slice pd i (i + arg_width m) = args"
    using py_slice_middle [of "?sm @ [k]" args rest] args
    by (simp add: pd_def i_def len_m ac_simps)
  have butlast_eq: "butlast pf = lit ''%'' @ map chr sp @ lit m"
    by (simp add: pf_def butlast_append)
  have render: "render_record F errs pd i pf (Some (chr k)) =
      (case sprintf F ?tmpl ?v of
         Inl e \<Rightarrow> Inl e
       | Inr t \<Rightarrow> Inr (t, i + arg_width m))"
    by (simp add: render_record_def is_value butlast_eq parse sf size slice unpack)
  have one_shot: "decode_record F errs c0 (sp @ bytes_of m @ k # args @ rest) =
           (case sprintf F ?tmpl ?v of
              Inl e \<Rightarrow> Inl e
            | Inr t \<Rightarrow> Inr (t, int (length sp + length m) + 1 + arg_width m, Some (chr k)))"
  proof -
    have i2: "i + arg_width m = int (length sp + length m) + 1 + arg_width m"
      by (simp add: i_def)
    show ?thesis
      unfolding decode_record_def pd_def [symmetric] scan_eq
      by (simp add: render i2 split: sum.splits)
  qed

  let ?d0 = "(reset d)\<lparr>print_fmt := lit ''%'', state := FIND_FMT_END\<rparr>"
  let ?d1 = "?d0\<lparr>print_fmt := print_fmt ?d0 @ map chr ?sm\<rparr>"
  let ?d2 = "d\<lparr>print_fmt := ?tmpl, data_buffer := [], val_len := arg_width m, val_fmt := sf,
               state := CAP_VALUE\<rparr>"
  let ?d3 = "?d2\<lparr>data_buffer := data_buffer ?d2 @ butlast args\<rparr>"
  have args_ne: "args \<noteq> []"
    using args w_pos by auto
  have args_split: "args = butlast args @ [last args]"
    using args_ne by simp
  have first: "decode_byte F d 0xA5 = Inr (?d0, [])"
    using d by (simp add: decode_byte_def chr_def)
  have "decode_bytes F d (0xA5 # ?sm @ k # args) [] = decode_bytes F ?d0 (?sm @ k # args) []"
    using first by simp
  also have "\<dots> = decode_bytes F ?d1 (k # args) []"
    using plain_sm by (intro decode_bytes_plain) simp_all
  also have "\<dots> = decode_bytes F ?d2 args []"
  proof -
    have bl: "butlast (lit ''%'' @ map chr sp @ lit m @ [x]) = lit ''%'' @ map chr sp @ lit m"
      for x by (simp add: butlast_append)
    have "decode_byte F ?d1 k = Inr (?d2, [])"
      using is_value parse sf size
      by (simp add: decode_byte_def Let_def reset_def chr_bytes_of bl)
    then show ?thesis by simp
  qed
  also have "\<dots> = decode_bytes F ?d2 (butlast args @ [last args]) []"
    using args_split by simp
  also have "\<dots> = decode_bytes F ?d3 [last args] []"
  proof -
    have "length (butlast args) < length args"
      using args_ne by (simp add: length_greater_0_conv)
    then have "int (length (butlast args)) < arg_width m"
      using args by linarith
    then have "int (length (data_buffer ?d2 @ butlast args)) < val_len ?d2"
      by simp
    then have "decode_bytes F ?d2 (butlast args) [] = Inr (?d3, [])"
      by (intro cap_value_fill) simp_all
    then show ?thesis by (simp add: decode_bytes_append)
  qed
  also have "\<dots> =
      (case sprintf F ?tmpl ?v of
         Inl e \<Rightarrow> Inl e
       | Inr t \<Rightarrow>
           Inr (d\<lparr>print_fmt := ?tmpl, data_buffer := args, val_len := arg_width m,
                   val_fmt := sf, state := FIND_FMT_START\<rparr>, t))"
    using args unpack args_ne
    by (simp add: decode_byte_def Let_def split: sum.splits)
  finally have raw: "decode F d (0xA5 # sp @ bytes_of m @ k # args) False =
      (case sprintf F ?tmpl ?v of
         Inl e \<Rightarrow> Inl e
       | Inr t \<Rightarrow>
           Inr (d\<lparr>print_fmt := ?tmpl, data_buffer := args, val_len := arg_width m,
                   val_fmt := sf, state := FIND_FMT_START\<rparr>, t))"
    by (simp add: decode_def split: sum.splits)
  have the_sf: "the (map_of VALUE_FORMAT (width_tag m @ [chr k])) = sf"
    by (simp add: sf)
  have streaming: "decode F d (0xA5 # sp @ bytes_of m @ k # args) False =
      (case sprintf F ?tmpl ?v of
         Inl e \<Rightarrow> Inl e
       | Inr t \<Rightarrow>
           Inr (d\<lparr>print_fmt := ?tmpl, data_buffer := args, val_len := arg_width m,
                   val_fmt := the (map_of VALUE_FORMAT (width_tag m @ [chr k])),
                   state := FIND_FMT_START\<rparr>, t))"
    unfolding the_sf by (rule raw)
  from one_shot streaming show ?thesis by (rule conjI)
qed

text \<open>The module's demonstration record \<^verbatim>\<open>b'\xA5hhd\xff'\<close>, here with the flag \<^verbatim>\<open>-\<close>:
  one signed byte, rendered as \<^verbatim>\<open>-1\<close>.\<close>

theorem numeric_record_witness:
  "plain 0x2D
   \<and> chr 0x2D \<notin> set len_char_set
   \<and> ''hh'' \<in> set length_modifiers
   \<and> chr 0x64 \<in> set (lit ''duoxX'')
   \<and> int (length [0xFF :: byte]) = arg_width ''hh''
   \<and> state (init Strict) = FIND_FMT_START
   \<and> decode_record percent Strict None ([0x2D] @ bytes_of ''hh'' @ 0x64 # [0xFF] @ [0x41]) =
       Inr (lit ''-1'', 5, Some (ch CHR ''d''))
   \<and> decode percent (init Strict) (0xA5 # [0x2D] @ bytes_of ''hh'' @ 0x64 # [0xFF]) False =
       Inr (\<lparr>errors = Strict, print_fmt = lit ''%-d'', data_buffer = [0xFF], val_len = 1,
             val_fmt = ''<b'', state = FIND_FMT_START, len = None\<rparr>, lit ''-1'')"
proof -
  have p: "plain 0x2D" by (simp add: plain_def codec_defs)
  have q: "chr 0x2D \<notin> set len_char_set" by (simp add: codec_defs)
  have h1: "\<forall>x \<in> set [0x2D :: byte]. plain x" using p by simp
  have h2: "[0x2D :: byte] = [] \<or> chr (last [0x2D]) \<notin> set len_char_set" using q by simp
  have h3: "''hh'' \<in> set length_modifiers" by (simp add: length_modifiers_def)
  have h4: "chr 0x64 \<in> set (lit ''duoxX'')" by (simp add: chr_def lit_def)
  have h5: "int (length [0xFF :: byte]) = arg_width ''hh''" by (simp add: arg_width_def)
  have h6: "state (init Strict) = FIND_FMT_START" by (simp add: init_def)
  note t = numeric_record [OF h1 h2 h3 h4 h5 h6, of percent Strict None "[0x41]"]
  have one: "decode_record percent Strict None ([0x2D] @ bytes_of ''hh'' @ 0x64 # [0xFF] @ [0x41]) =
       Inr (lit ''-1'', 5, Some (ch CHR ''d''))"
    using t [THEN conjunct1]
    by (simp add: sprintf_def percent_defs lit_def ch_def chr_def le_sint_def arg_width_def)
  have two: "decode percent (init Strict) (0xA5 # [0x2D] @ bytes_of ''hh'' @ 0x64 # [0xFF]) False =
       Inr (\<lparr>errors = Strict, print_fmt = lit ''%-d'', data_buffer = [0xFF], val_len = 1,
             val_fmt = ''<b'', state = FIND_FMT_START, len = None\<rparr>, lit ''-1'')"
    using t [THEN conjunct2]
    by (simp add: sprintf_def percent_defs lit_def ch_def chr_def le_sint_def arg_width_def
        width_tag_def VALUE_FORMAT_def init_def)
  from p q h3 h4 h5 h6 one two show ?thesis by simp
qed

end
